theory Spec2Isabelle
  imports Main "HOL-Library.Word"
begin

section \<open>The generator and shrinker protocol\<close>

text \<open>
  The package \<open>gen\<close> works with two types.  A \<open>Shrinker[T]\<close> is a Go closure
  \<open>func(accept bool) (T, bool)\<close> over private variables: a call returns a candidate and
  the flag \<open>more\<close> and changes the closure's variables.  Such a closure is a value that
  answers a call with a result and with the closure as it stands after the call, so it is
  modelled by a codatatype: \<open>out s accept\<close> is what the call returns and
  \<open>nxt s accept\<close> is the shrinker after that call.  Two shrinkers are equal exactly when
  they answer every sequence of calls alike.

  A \<open>Generator[T]\<close> has one method \<open>Generate(r *rand.Rand, sz Size)\<close>.  It may advance
  the random source \<open>r\<close> points to and it may draw from the process-wide source of
  \<open>math/rand\<close>, so both are threaded through the model: \<open>'r\<close> is the state of a
  \<open>rand.Rand\<close>, \<open>'g\<close> the state of the process-wide source.
\<close>

record Size =
  Min :: int
  Max :: int

codatatype 'a Shrinker =
  Shrinker (out: "bool \<Rightarrow> 'a \<times> bool") (nxt: "bool \<Rightarrow> 'a Shrinker")

type_synonym ('g, 'r, 'a) Generator =
  "'g \<Rightarrow> 'r \<Rightarrow> Size \<Rightarrow> ('a \<times> 'a Shrinker) \<times> 'g \<times> 'r"

text \<open>
  The part of \<open>math/rand\<close> that \<open>PairOf\<close> calls: \<open>rand.Int63()\<close> on the process-wide
  source, and \<open>rand.New(rand.NewSource(seed))\<close>.  The library is not part of the
  repository, so it is a parameter of the model.
\<close>

record ('g, 'r) math_rand =
  Int63 :: "'g \<Rightarrow> 64 word \<times> 'g"
  New_NewSource :: "64 word \<Rightarrow> 'r"

section \<open>gen/pair.go\<close>

record ('a, 'b) Pair =
  First :: 'a
  Second :: 'b

text \<open>
  The variables the closure returned by \<open>PairOf\<close> captures: the flag
  \<open>shrinkingFirst\<close>, \<open>currentA\<close>, \<open>currentB\<close> and the two component shrinkers.
\<close>

record ('a, 'b) pair_vars =
  shrinkingFirst :: bool
  currentA :: 'a
  currentB :: 'b
  sa :: "'a Shrinker"
  sb :: "'b Shrinker"

text \<open>
  The tail of the closure, from the comment \<open>Try shrinking the second component\<close> on:
  it is reached with the caller's \<open>accept\<close> when the flag was already off, and with
  \<open>false\<close> in the call that switches.  \<open>zero\<close> is Go's zero value of \<open>Pair[A, B]\<close>.
\<close>

definition shrink_second ::
  "('a, 'b) Pair \<Rightarrow> ('a, 'b) pair_vars \<Rightarrow> bool \<Rightarrow> (('a, 'b) Pair \<times> bool) \<times> ('a, 'b) pair_vars"
where
  "shrink_second zero v accept =
     (let (nb, ok) = out (sb v) accept; v' = v\<lparr>sb := nxt (sb v) accept\<rparr> in
      if ok then ((\<lparr>First = currentA v, Second = nb\<rparr>, True), v'\<lparr>currentB := nb\<rparr>)
      else ((zero, False), v'))"

text \<open>The body of the closure: one call, returning the result and the variables after it.\<close>

definition pair_next ::
  "('a, 'b) Pair \<Rightarrow> ('a, 'b) pair_vars \<Rightarrow> bool \<Rightarrow> (('a, 'b) Pair \<times> bool) \<times> ('a, 'b) pair_vars"
where
  "pair_next zero v accept =
     (if shrinkingFirst v then
        (let (na, ok) = out (sa v) accept; v' = v\<lparr>sa := nxt (sa v) accept\<rparr> in
         if ok then ((\<lparr>First = na, Second = currentB v\<rparr>, True), v'\<lparr>currentA := na\<rparr>)
         else shrink_second zero (v'\<lparr>shrinkingFirst := False\<rparr>) False)
      else shrink_second zero v accept)"

primcorec pair_shrinker :: "('a, 'b) Pair \<Rightarrow> ('a, 'b) pair_vars \<Rightarrow> ('a, 'b) Pair Shrinker" where
  "out (pair_shrinker zero v) = (\<lambda>accept. fst (pair_next zero v accept))"
| "nxt (pair_shrinker zero v) = (\<lambda>accept. pair_shrinker zero (snd (pair_next zero v accept)))"

text \<open>The variables as \<open>Generate\<close> initialises them.\<close>

definition pair_init :: "'a \<Rightarrow> 'b \<Rightarrow> 'a Shrinker \<Rightarrow> 'b Shrinker \<Rightarrow> ('a, 'b) pair_vars" where
  "pair_init a b s t =
     \<lparr>shrinkingFirst = True, currentA = a, currentB = b, sa = s, sb = t\<rparr>"

text \<open>
  \<open>PairOf(ga, gb).Generate(r, sz)\<close>: \<open>From\<close> makes a generator of the function it is
  given, so \<open>Generate\<close> is that function.  The pointer \<open>r\<close> is \<open>None\<close> when it is nil; the
  result carries the process-wide source and the caller's \<open>rand.Rand\<close> as the call
  leaves them.  With a nil \<open>r\<close> the fresh source is local to the call and is dropped.
\<close>

definition PairOf ::
  "('g, 'r) math_rand \<Rightarrow> ('a, 'b) Pair \<Rightarrow> ('g, 'r, 'a) Generator \<Rightarrow> ('g, 'r, 'b) Generator \<Rightarrow>
   'g \<Rightarrow> 'r option \<Rightarrow> Size \<Rightarrow> ((('a, 'b) Pair \<times> ('a, 'b) Pair Shrinker) \<times> 'g \<times> 'r option)"
where
  "PairOf lib zero ga gb g r sz =
     (let (g0, r0) = (case r of
                        None \<Rightarrow> (let (seed, g') = Int63 lib g in (g', New_NewSource lib seed))
                      | Some r' \<Rightarrow> (g, r'));
          ((a, s), g1, r1) = ga g0 r0 sz;
          ((b, t), g2, r2) = gb g1 r1 sz
      in ((\<lparr>First = a, Second = b\<rparr>, pair_shrinker zero (pair_init a b s t)),
          g2, map_option (\<lambda>_. r2) r))"

definition TupleOf ::
  "('g, 'r) math_rand \<Rightarrow> ('a, 'b) Pair \<Rightarrow> ('g, 'r, 'a) Generator \<Rightarrow> ('g, 'r, 'b) Generator \<Rightarrow>
   'g \<Rightarrow> 'r option \<Rightarrow> Size \<Rightarrow> ((('a, 'b) Pair \<times> ('a, 'b) Pair Shrinker) \<times> 'g \<times> 'r option)"
where
  "TupleOf lib zero ga gb = PairOf lib zero ga gb"

section \<open>Calling a shrinker repeatedly\<close>

text \<open>
  A caller drives a shrinker with a sequence of \<open>accept\<close> arguments \<open>f 0\<close>, \<open>f 1\<close>, ...
  \<open>after s f n\<close> is the shrinker after the first \<open>n\<close> calls and \<open>call s f n\<close> is what
  call number \<open>n\<close> (counting from 0) returns.  \<open>pair_vars_after\<close> is the same run on
  the variables of the pair closure.
\<close>

fun after :: "'a Shrinker \<Rightarrow> (nat \<Rightarrow> bool) \<Rightarrow> nat \<Rightarrow> 'a Shrinker" where
  "after s f 0 = s"
| "after s f (Suc n) = nxt (after s f n) (f n)"

definition call :: "'a Shrinker \<Rightarrow> (nat \<Rightarrow> bool) \<Rightarrow> nat \<Rightarrow> 'a \<times> bool" where
  "call s f n = out (after s f n) (f n)"

fun pair_vars_after ::
  "('a, 'b) Pair \<Rightarrow> ('a, 'b) pair_vars \<Rightarrow> (nat \<Rightarrow> bool) \<Rightarrow> nat \<Rightarrow> ('a, 'b) pair_vars"
where
  "pair_vars_after zero v f 0 = v"
| "pair_vars_after zero v f (Suc n) = snd (pair_next zero (pair_vars_after zero v f n) (f n))"

section \<open>The generators of gen/pair\_test.go\<close>

text \<open>
  \<open>TestPairOf_Shrinking\<close> builds two generators with \<open>From\<close>.  \<open>intGen\<close> returns 10
  and a shrinker that counts its variable \<open>val\<close> down to 0; \<open>strGen\<close> returns
  \<open>"hello"\<close> and a shrinker that drops the last character while more than one is left.
  Neither reads \<open>r\<close>, \<open>sz\<close> or \<open>accept\<close>.
\<close>

primcorec intGen_shrinker :: "int \<Rightarrow> int Shrinker" where
  "out (intGen_shrinker val) = (\<lambda>accept. if val > 0 then (val - 1, True) else (0, False))"
| "nxt (intGen_shrinker val) = (\<lambda>accept. intGen_shrinker (if val > 0 then val - 1 else val))"

definition intGen :: "('g, 'r, int) Generator" where
  "intGen g r sz = ((10, intGen_shrinker 10), g, r)"

primcorec strGen_shrinker :: "string \<Rightarrow> string Shrinker" where
  "out (strGen_shrinker val) =
     (\<lambda>accept. if length val > 1 then (butlast val, True) else ([], False))"
| "nxt (strGen_shrinker val) =
     (\<lambda>accept. strGen_shrinker (if length val > 1 then butlast val else val))"

definition strGen :: "('g, 'r, string) Generator" where
  "strGen g r sz = ((''hello'', strGen_shrinker ''hello''), g, r)"

section \<open>What the claims say about a shrinker or a generator\<close>

text \<open>
  \<open>exhausts s\<close>: whatever the caller passes, some call of \<open>s\<close> returns \<open>more = false\<close>.
  \<open>stays_exhausted s\<close>: once a call returned \<open>more = false\<close>, every later call does.
  \<open>never_larger size_of v0 s\<close>: no candidate \<open>s\<close> emits is larger than \<open>v0\<close>.
  \<open>pair_vars_bounded\<close> says the same of the variables of the pair closure.
  \<open>pure_gen ga\<close>: what \<open>Generate\<close> returns, and the state it leaves \<open>r\<close> in, depend on
  the state of \<open>r\<close> and on the size only, not on the process-wide source.
\<close>

definition exhausts :: "'a Shrinker \<Rightarrow> bool" where
  "exhausts s \<longleftrightarrow> (\<forall>f. \<exists>n. \<not> snd (call s f n))"

definition stays_exhausted :: "'a Shrinker \<Rightarrow> bool" where
  "stays_exhausted s \<longleftrightarrow> (\<forall>f n m. \<not> snd (call s f n) \<longrightarrow> n \<le> m \<longrightarrow> \<not> snd (call s f m))"

definition never_larger :: "('a \<Rightarrow> nat) \<Rightarrow> 'a \<Rightarrow> 'a Shrinker \<Rightarrow> bool" where
  "never_larger size_of v0 s \<longleftrightarrow>
     (\<forall>f n. snd (call s f n) \<longrightarrow> size_of (fst (call s f n)) \<le> size_of v0)"

definition pair_vars_bounded ::
  "('a \<Rightarrow> nat) \<Rightarrow> ('b \<Rightarrow> nat) \<Rightarrow> 'a \<Rightarrow> 'b \<Rightarrow> ('a, 'b) pair_vars \<Rightarrow> bool" where
  "pair_vars_bounded sizeA sizeB a b v \<longleftrightarrow>
     never_larger sizeA a (sa v) \<and> never_larger sizeB b (sb v) \<and>
     sizeA (currentA v) \<le> sizeA a \<and> sizeB (currentB v) \<le> sizeB b"

definition pure_gen :: "('g, 'r, 'a) Generator \<Rightarrow> bool" where
  "pure_gen ga \<longleftrightarrow>
     (\<forall>g g' r sz. fst (ga g r sz) = fst (ga g' r sz) \<and>
                  snd (snd (ga g r sz)) = snd (snd (ga g' r sz)))"

text \<open>
  A small \<open>math/rand\<close> to run the model on: the process-wide source is a counter that
  \<open>Int63\<close> returns and advances, and a \<open>rand.Rand\<close> starts at its seed.  \<open>counting_gen\<close>
  is a generator that draws the state of \<open>r\<close> and advances it.
\<close>

definition counting_rand :: "(nat, nat) math_rand" where
  "counting_rand = \<lparr>Int63 = (\<lambda>g. (of_nat g, Suc g)), New_NewSource = unat\<rparr>"

definition counting_gen :: "('g, nat, int) Generator" where
  "counting_gen g r sz = ((int r, intGen_shrinker (int r)), g, Suc r)"

section \<open>Runs of a shrinker\<close>

lemma after_add: "after s f (n + m) = after (after s f n) (\<lambda>i. f (n + i)) m"
  by (induction m) simp_all

lemma call_add: "call s f (n + m) = call (after s f n) (\<lambda>i. f (n + i)) m"
  by (simp add: call_def after_add)

lemma after_Suc_shift: "after s f (Suc m) = after (nxt s (f 0)) (\<lambda>i. f (Suc i)) m"
  using after_add [of s f 1 m] by simp

lemma call_Suc_shift: "call s f (Suc m) = call (nxt s (f 0)) (\<lambda>i. f (Suc i)) m"
  using call_add [of s f 1 m] by simp

lemma call_0: "call s f 0 = out s (f 0)"
  by (simp add: call_def)

lemma call_case_nat_Suc: "call s (case_nat x f) (Suc n) = call (nxt s x) f n"
  using call_Suc_shift [of s "case_nat x f" n] by simp

lemma call_case_nat_0: "call s (case_nat x f) 0 = out s x"
  by (simp add: call_0)

text \<open>
The shrinkers of \<open>intGen\<close> and \<open>strGen\<close> in closed form.
\<close>

lemma after_intGen_shrinker:
  "after (intGen_shrinker val) f n = intGen_shrinker (if val \<le> 0 then val else max 0 (val - int n))"
  by (induction n) (auto simp: max_def intro!: arg_cong [where f = intGen_shrinker])

lemma call_intGen_shrinker:
  "call (intGen_shrinker val) f n = (if int n < val then (val - int n - 1, True) else (0, False))"
  by (auto simp: call_def after_intGen_shrinker max_def)

lemma after_strGen_shrinker:
  "after (strGen_shrinker val) f n =
     strGen_shrinker (take (max (min 1 (length val)) (length val - n)) val)"
proof (induction n)
  case 0
  then show ?case by (simp add: max_def)
next
  case (Suc n)
  let ?L = "length val"
  show ?case
  proof (cases "1 < ?L - n")
    case True
    then have e1: "max (min 1 ?L) (?L - n) = ?L - n"
      and e2: "max (min 1 ?L) (?L - Suc n) = ?L - n - 1"
      by auto
    from True show ?thesis
      by (simp add: Suc e1 e2 butlast_take)
  next
    case False
    then have e: "max (min 1 ?L) (?L - Suc n) = max (min 1 ?L) (?L - n)"
      by (auto simp: max_def min_def)
    from False have "\<not> 1 < length (take (max (min 1 ?L) (?L - n)) val)"
      by (auto simp: max_def min_def)
    then show ?thesis
      by (simp add: Suc e)
  qed
qed

lemma call_strGen_shrinker:
  "call (strGen_shrinker val) f n =
     (if 1 < length val - n then (take (length val - n - 1) val, True) else ([], False))"
proof (cases "1 < length val - n")
  case True
  then have "max (min 1 (length val)) (length val - n) = length val - n"
    by auto
  with True show ?thesis
    by (simp add: call_def after_strGen_shrinker butlast_take)
next
  case False
  then have "\<not> 1 < length (take (max (min 1 (length val)) (length val - n)) val)"
    by (auto simp: max_def min_def)
  with False show ?thesis
    by (simp add: call_def after_strGen_shrinker)
qed

lemma exhausts_intGen_shrinker: "exhausts (intGen_shrinker val)"
  unfolding exhausts_def
proof
  fix f
  have "\<not> snd (call (intGen_shrinker val) f (nat val))"
    by (simp add: call_intGen_shrinker)
  then show "\<exists>n. \<not> snd (call (intGen_shrinker val) f n)" ..
qed

lemma exhausts_strGen_shrinker: "exhausts (strGen_shrinker val)"
  unfolding exhausts_def
proof
  fix f
  have "\<not> snd (call (strGen_shrinker val) f (length val))"
    by (simp add: call_strGen_shrinker)
  then show "\<exists>n. \<not> snd (call (strGen_shrinker val) f n)" ..
qed

lemma stays_exhausted_intGen_shrinker: "stays_exhausted (intGen_shrinker val)"
  by (auto simp: stays_exhausted_def call_intGen_shrinker)

lemma stays_exhausted_strGen_shrinker: "stays_exhausted (strGen_shrinker val)"
  by (auto simp: stays_exhausted_def call_strGen_shrinker)

lemma never_larger_intGen_shrinker:
  "never_larger (\<lambda>i. nat \<bar>i\<bar>) val (intGen_shrinker val)"
  by (auto simp: never_larger_def call_intGen_shrinker)

lemma never_larger_strGen_shrinker:
  "never_larger length val (strGen_shrinker val)"
  by (auto simp: never_larger_def call_strGen_shrinker)

lemma pure_gen_intGen: "pure_gen intGen"
  by (simp add: pure_gen_def intGen_def)

lemma pure_gen_strGen: "pure_gen strGen"
  by (simp add: pure_gen_def strGen_def)

lemma pure_gen_counting_gen: "pure_gen counting_gen"
  by (simp add: pure_gen_def counting_gen_def)

text \<open>
The three properties pass from a shrinker to the shrinker after a call.
\<close>

lemma stays_exhausted_nxt:
  assumes "stays_exhausted s"
  shows "stays_exhausted (nxt s x)"
  unfolding stays_exhausted_def
proof (intro allI impI)
  fix f n m
  assume "\<not> snd (call (nxt s x) f n)" and "n \<le> m"
  then have "\<not> snd (call s (case_nat x f) (Suc n))" and "Suc n \<le> Suc m"
    by (simp_all add: call_case_nat_Suc)
  with assms have "\<not> snd (call s (case_nat x f) (Suc m))"
    unfolding stays_exhausted_def by blast
  then show "\<not> snd (call (nxt s x) f m)"
    by (simp add: call_case_nat_Suc)
qed

lemma stays_exhausted_twice:
  assumes "stays_exhausted s" and "\<not> snd (out s x)"
  shows "\<not> snd (out (nxt s x) y)"
proof -
  let ?f = "case_nat x (\<lambda>_. y)"
  from assms(2) have "\<not> snd (call s ?f 0)"
    by (simp add: call_case_nat_0)
  with assms(1) have "\<not> snd (call s ?f (Suc 0))"
    unfolding stays_exhausted_def by blast
  then show ?thesis
    by (simp add: call_case_nat_Suc call_0)
qed

lemma never_larger_nxt:
  assumes "never_larger size_of v0 s"
  shows "never_larger size_of v0 (nxt s x)"
  unfolding never_larger_def
proof (intro allI impI)
  fix f n
  assume "snd (call (nxt s x) f n)"
  then have "snd (call s (case_nat x f) (Suc n))"
    by (simp add: call_case_nat_Suc)
  with assms have "size_of (fst (call s (case_nat x f) (Suc n))) \<le> size_of v0"
    unfolding never_larger_def by blast
  then show "size_of (fst (call (nxt s x) f n)) \<le> size_of v0"
    by (simp add: call_case_nat_Suc)
qed

lemma never_larger_out:
  assumes "never_larger size_of v0 s" and "snd (out s x)"
  shows "size_of (fst (out s x)) \<le> size_of v0"
proof -
  from assms(2) have "snd (call s (\<lambda>_. x) 0)"
    by (simp add: call_0)
  with assms(1) have "size_of (fst (call s (\<lambda>_. x) 0)) \<le> size_of v0"
    unfolding never_larger_def by blast
  then show ?thesis
    by (simp add: call_0)
qed

section \<open>Runs of the pair shrinker\<close>

lemma after_pair_shrinker:
  "after (pair_shrinker zero v) f n = pair_shrinker zero (pair_vars_after zero v f n)"
  by (induction n) simp_all

lemma call_pair_shrinker:
  "call (pair_shrinker zero v) f n = fst (pair_next zero (pair_vars_after zero v f n) (f n))"
  by (simp add: call_def after_pair_shrinker)

text \<open>
One call of the closure, by the branch it takes.
\<close>

lemma pair_next_first_ok:
  "shrinkingFirst v \<Longrightarrow> snd (out (sa v) acc) \<Longrightarrow>
   pair_next zero v acc =
     ((\<lparr>First = fst (out (sa v) acc), Second = currentB v\<rparr>, True),
      v\<lparr>sa := nxt (sa v) acc, currentA := fst (out (sa v) acc)\<rparr>)"
  by (simp add: pair_next_def split_beta Let_def)

lemma pair_next_switch:
  "shrinkingFirst v \<Longrightarrow> \<not> snd (out (sa v) acc) \<Longrightarrow>
   pair_next zero v acc =
     shrink_second zero (v\<lparr>sa := nxt (sa v) acc, shrinkingFirst := False\<rparr>) False"
  by (simp add: pair_next_def split_beta Let_def)

lemma pair_next_second:
  "\<not> shrinkingFirst v \<Longrightarrow> pair_next zero v acc = shrink_second zero v acc"
  by (simp add: pair_next_def)

lemma shrink_second_fields:
  "shrinkingFirst (snd (shrink_second zero v acc)) = shrinkingFirst v"
  "currentA (snd (shrink_second zero v acc)) = currentA v"
  "sa (snd (shrink_second zero v acc)) = sa v"
  "sb (snd (shrink_second zero v acc)) = nxt (sb v) acc"
  "snd (fst (shrink_second zero v acc)) = snd (out (sb v) acc)"
  by (simp_all add: shrink_second_def split_beta Let_def)

lemma shrink_second_sa_update:
  "shrink_second zero (v\<lparr>sa := x\<rparr>) acc =
     (fst (shrink_second zero v acc), (snd (shrink_second zero v acc))\<lparr>sa := x\<rparr>)"
  by (simp add: shrink_second_def split_beta Let_def)

lemma sb_pair_next:
  "sb (snd (pair_next zero v x)) = sb v \<or> (\<exists>y. sb (snd (pair_next zero v x)) = nxt (sb v) y)"
  by (cases "shrinkingFirst v"; cases "snd (out (sa v) x)")
     (auto simp: pair_next_first_ok pair_next_switch pair_next_second shrink_second_fields)

text \<open>
  While the first shrinker emits candidates the closure only advances \<open>sa\<close> and stores
  the candidate in \<open>currentA\<close>; in the call in which \<open>sa\<close> first returns \<open>more = false\<close>
  it switches; from then on it only advances \<open>sb\<close>.
\<close>

lemma first_phase:
  "shrinkingFirst v \<Longrightarrow> \<forall>j<n. snd (call (sa v) f j) \<Longrightarrow>
   pair_vars_after zero v f n =
     v\<lparr>sa := after (sa v) f n,
       currentA := (if n = 0 then currentA v else fst (call (sa v) f (n - 1)))\<rparr>"
proof (induction n)
  case 0
  then show ?case by simp
next
  case (Suc n)
  then have IH: "pair_vars_after zero v f n =
     v\<lparr>sa := after (sa v) f n,
       currentA := (if n = 0 then currentA v else fst (call (sa v) f (n - 1)))\<rparr>"
    by simp
  from Suc.prems have ok: "snd (out (after (sa v) f n) (f n))"
    by (simp add: call_def)
  show ?case
    using Suc.prems(1) ok by (simp add: IH pair_next_first_ok call_def)
qed

lemma switching_call:
  assumes "\<forall>j<k. snd (call s f j)" and "\<not> snd (call s f k)"
  shows "call (pair_shrinker zero (pair_init a b s t)) f k =
           (if snd (out t False)
            then (\<lparr>First = (if k = 0 then a else fst (call s f (k - 1))),
                   Second = fst (out t False)\<rparr>, True)
            else (zero, False)) \<and>
         sb (pair_vars_after zero (pair_init a b s t) f (Suc k)) = nxt t False"
proof -
  let ?v = "pair_init a b s t"
  have sf: "shrinkingFirst ?v" and sav: "sa ?v = s" and ca: "currentA ?v = a" and sbv: "sb ?v = t"
    by (simp_all add: pair_init_def)
  from assms(1) have before: "\<forall>j<k. snd (call (sa ?v) f j)"
    by (simp add: sav)
  have st: "pair_vars_after zero ?v f k =
      ?v\<lparr>sa := after s f k,
         currentA := (if k = 0 then a else fst (call s f (k - 1)))\<rparr>"
    using first_phase [OF sf before] by (simp add: sav ca)
  from assms(2) have no: "\<not> snd (out (after s f k) (f k))"
    by (simp add: call_def)
  show ?thesis
    using no by (simp add: call_def after_pair_shrinker st pair_next_switch sf sbv shrink_second_def split_beta Let_def)
qed

lemma switched_state:
  assumes "\<forall>j<k. snd (call s f j)" and "\<not> snd (call s f k)"
  shows "pair_vars_after zero (pair_init a b s t) f (Suc k) =
           snd (shrink_second zero
             \<lparr>shrinkingFirst = False,
              currentA = (if k = 0 then a else fst (call s f (k - 1))),
              currentB = b, sa = after s f (Suc k), sb = t\<rparr> False)"
proof -
  let ?v = "pair_init a b s t"
  have sf: "shrinkingFirst ?v" and sav: "sa ?v = s" and ca: "currentA ?v = a"
    by (simp_all add: pair_init_def)
  from assms(1) have before: "\<forall>j<k. snd (call (sa ?v) f j)"
    by (simp add: sav)
  have st: "pair_vars_after zero ?v f k =
      ?v\<lparr>sa := after s f k,
         currentA := (if k = 0 then a else fst (call s f (k - 1)))\<rparr>"
    using first_phase [OF sf before] by (simp add: sav ca)
  from assms(2) have no: "\<not> snd (out (after s f k) (f k))"
    by (simp add: call_def)
  show ?thesis
    using no by (simp add: st pair_next_switch sf) (simp add: pair_init_def)
qed

lemma second_phase:
  "\<not> shrinkingFirst v \<Longrightarrow>
   \<not> shrinkingFirst (pair_vars_after zero v f n) \<and>
   sb (pair_vars_after zero v f n) = after (sb v) f n \<and>
   sa (pair_vars_after zero v f n) = sa v \<and>
   currentA (pair_vars_after zero v f n) = currentA v"
  by (induction n) (simp_all add: pair_next_second shrink_second_fields)

lemma second_phase_call:
  assumes "\<not> shrinkingFirst v"
  shows "snd (call (pair_shrinker zero v) f n) = snd (call (sb v) f n)"
    and "snd (call (pair_shrinker zero v) f n) \<Longrightarrow>
         First (fst (call (pair_shrinker zero v) f n)) = currentA v"
proof -
  let ?w = "pair_vars_after zero v f n"
  from second_phase [OF assms, of zero f n]
  have w: "\<not> shrinkingFirst ?w" "sb ?w = after (sb v) f n" "currentA ?w = currentA v"
    by simp_all
  show "snd (call (pair_shrinker zero v) f n) = snd (call (sb v) f n)"
    by (simp add: call_def after_pair_shrinker pair_next_second w shrink_second_fields)
  show "First (fst (call (pair_shrinker zero v) f n)) = currentA v"
    if "snd (call (pair_shrinker zero v) f n)"
    using that
    by (simp add: call_pair_shrinker pair_next_second w shrink_second_def split_beta Let_def
             split: if_splits)
qed

lemma second_phase_frame:
  "\<not> shrinkingFirst v \<Longrightarrow>
   pair_vars_after zero (v\<lparr>sa := x\<rparr>) f n = (pair_vars_after zero v f n)\<lparr>sa := x\<rparr>"
proof (induction n)
  case 0
  then show ?case by simp
next
  case (Suc n)
  from second_phase [OF Suc.prems, of zero f n]
  have "\<not> shrinkingFirst (pair_vars_after zero v f n)" by simp
  then show ?case
    using Suc by (simp add: pair_next_second shrink_second_sa_update)
qed

lemma second_phase_frame_call:
  assumes "\<not> shrinkingFirst v"
  shows "call (pair_shrinker zero (v\<lparr>sa := x\<rparr>)) f n = call (pair_shrinker zero v) f n"
proof -
  from second_phase [OF assms, of zero f n]
  have "\<not> shrinkingFirst (pair_vars_after zero v f n)" by simp
  then show ?thesis
    by (simp add: call_pair_shrinker second_phase_frame [OF assms] pair_next_second
             shrink_second_sa_update)
qed

lemma call_pair_same_first_step:
  assumes "pair_next zero u (g 0) = pair_next zero u' (g' 0)"
    and "\<And>i. g (Suc i) = g' (Suc i)"
  shows "call (pair_shrinker zero u) g m = call (pair_shrinker zero u') g' m"
proof (cases m)
  case 0
  with assms(1) show ?thesis by (simp add: call_0)
next
  case (Suc m')
  have "(\<lambda>i. g (Suc i)) = (\<lambda>i. g' (Suc i))"
    using assms(2) by (intro ext)
  with assms(1) Suc show ?thesis
    by (simp add: call_Suc_shift)
qed

section \<open>The order of shrinking\<close>

text \<open>
  Claim C1.  Take the shrinker that \<open>PairOf(ga, gb).Generate\<close> returns for the values
  \<open>a\<close>, \<open>b\<close> and the component shrinkers \<open>s\<close>, \<open>t\<close>.  As long as \<open>s\<close> has not
  reported exhaustion, that is in every call \<open>n\<close> such that \<open>s\<close> returned
  \<open>more = true\<close> in the calls \<open>0\<close> to \<open>n\<close>, the pair shrinker emits a candidate whose
  second component is the generated \<open>b\<close> (and whose first component is the candidate of
  \<open>s\<close>).
\<close>

theorem pair_keeps_second_while_first_shrinks:
  assumes "\<forall>j\<le>n. snd (call s f j)"
  shows "call (pair_shrinker zero (pair_init a b s t)) f n =
           (\<lparr>First = fst (call s f n), Second = b\<rparr>, True)"
proof -
  let ?v = "pair_init a b s t"
  have sf: "shrinkingFirst ?v" and sav: "sa ?v = s" and cb: "currentB ?v = b"
    by (simp_all add: pair_init_def)
  from assms have before: "\<forall>j<n. snd (call (sa ?v) f j)" and now: "snd (call s f n)"
    by (simp_all add: sav)
  have st: "pair_vars_after zero ?v f n =
      ?v\<lparr>sa := after s f n,
         currentA := (if n = 0 then currentA ?v else fst (call s f (n - 1)))\<rparr>"
    using first_phase [OF sf before] by (simp add: sav)
  show ?thesis
    using now by (simp add: call_def after_pair_shrinker st pair_next_first_ok sf cb)
qed

text \<open>
The generators of \<open>TestPairOf_Shrinking\<close>, fourth call.
\<close>

theorem pair_keeps_second_while_first_shrinks_witness:
  "snd (call (intGen_shrinker 10) (\<lambda>_. True) 3) \<and>
   call (pair_shrinker \<lparr>First = 0, Second = []\<rparr>
          (pair_init 10 ''hello'' (intGen_shrinker 10) (strGen_shrinker ''hello'')))
        (\<lambda>_. True) 3 = (\<lparr>First = 6, Second = ''hello''\<rparr>, True)"
proof -
  have h: "\<forall>j\<le>3. snd (call (intGen_shrinker 10) (\<lambda>_. True) j)"
    by (simp add: call_intGen_shrinker)
  show ?thesis
    using h pair_keeps_second_while_first_shrinks [OF h, of "\<lparr>First = 0, Second = []\<rparr>" 10 "''hello''" "strGen_shrinker ''hello''"]
    by (simp add: call_intGen_shrinker)
qed

text \<open>
  Claim C2.  The claim says that once the first shrinker is exhausted the first component
  of every candidate is the last accepted first value, the generated one when none was
  accepted.  The closure stores every candidate of \<open>sa\<close> in \<open>currentA\<close> when it emits
  it, before the caller has judged it, and never takes it back (\<open>switching_call\<close> above:
  the first component is the candidate of call \<open>k - 1\<close>, whatever \<open>f k\<close> says of it).
  With the generators of \<open>TestPairOf_Shrinking\<close> and a caller that rejects every
  candidate, the eleventh call switches to the second component and emits
  \<open>(0, "hell")\<close>: the first component is the rejected candidate 0 and not the
  generated 10.
\<close>

theorem pair_combines_rejected_first:
  "call (pair_shrinker \<lparr>First = 0, Second = []\<rparr>
          (pair_init 10 ''hello'' (intGen_shrinker 10) (strGen_shrinker ''hello'')))
        (\<lambda>_. False) 10 = (\<lparr>First = 0, Second = ''hell''\<rparr>, True)"
  by (simp add: call_def eval_nat_numeral pair_next_def shrink_second_def pair_init_def)

text \<open>
  Claim C3.  Let call \<open>k\<close> be the one in which the first shrinker \<open>s\<close> first returns
  \<open>more = false\<close>.  Whatever \<open>accept\<close> the caller passes in that call, the pair shrinker
  calls the second shrinker \<open>t\<close> with \<open>accept = false\<close>: what it returns is built from
  \<open>out t False\<close>, and the second shrinker it keeps is \<open>nxt t False\<close>.
\<close>

theorem switch_passes_reject_to_second:
  assumes "\<forall>j<k. snd (call s f j)" and "\<not> snd (call s f k)"
  shows "call (pair_shrinker zero (pair_init a b s t)) f k =
           (if snd (out t False)
            then (\<lparr>First = (if k = 0 then a else fst (call s f (k - 1))),
                   Second = fst (out t False)\<rparr>, True)
            else (zero, False)) \<and>
         sb (pair_vars_after zero (pair_init a b s t) f (Suc k)) = nxt t False"
  using assms by (rule switching_call)

text \<open>
The generators of \<open>TestPairOf_Shrinking\<close> with a caller that passes \<open>true\<close>.
\<close>

theorem switch_passes_reject_to_second_witness:
  "snd (call (intGen_shrinker 10) (\<lambda>_. True) 9) \<and>
   \<not> snd (call (intGen_shrinker 10) (\<lambda>_. True) 10) \<and>
   call (pair_shrinker \<lparr>First = 0, Second = []\<rparr>
          (pair_init 10 ''hello'' (intGen_shrinker 10) (strGen_shrinker ''hello'')))
        (\<lambda>_. True) 10 = (\<lparr>First = 0, Second = ''hell''\<rparr>, True)"
proof -
  have h1: "\<forall>j<10. snd (call (intGen_shrinker 10) (\<lambda>_. True) j)"
    by (simp add: call_intGen_shrinker)
  have h2: "\<not> snd (call (intGen_shrinker 10) (\<lambda>_. True) 10)"
    by (simp add: call_intGen_shrinker)
  show ?thesis
    using h1 h2 switch_passes_reject_to_second [OF h1 h2, of "\<lparr>First = 0, Second = []\<rparr>" 10 "''hello''" "strGen_shrinker ''hello''"]
    by (simp add: call_intGen_shrinker)
qed

text \<open>
  Claim C9.  Let \<open>w\<close> be the variables of the closure after the call in which the
  first shrinker returned \<open>more = false\<close>.  The flag \<open>shrinkingFirst\<close> is off and
  \<open>sa\<close> has been called \<open>k + 1\<close> times.  From \<open>w\<close> on the closure never calls \<open>sa\<close>
  again: whatever shrinker \<open>x\<close> is put in its place, every later call returns the same
  and leaves \<open>x\<close> as it is.  \<open>currentA\<close> keeps its value, and that value is the first
  component of every candidate emitted in the switching call and after it.
\<close>

theorem first_left_alone_after_switch:
  assumes "\<forall>j<k. snd (call s f j)" and "\<not> snd (call s f k)"
    and "w = pair_vars_after zero (pair_init a b s t) f (Suc k)"
  shows "\<not> shrinkingFirst w \<and>
         sa w = after s f (Suc k) \<and>
         currentA w = (if k = 0 then a else fst (call s f (k - 1))) \<and>
         (snd (call (pair_shrinker zero (pair_init a b s t)) f k) \<longrightarrow>
            First (fst (call (pair_shrinker zero (pair_init a b s t)) f k)) = currentA w) \<and>
         (\<forall>h n x.
            pair_vars_after zero (w\<lparr>sa := x\<rparr>) h n = (pair_vars_after zero w h n)\<lparr>sa := x\<rparr> \<and>
            call (pair_shrinker zero (w\<lparr>sa := x\<rparr>)) h n = call (pair_shrinker zero w) h n \<and>
            currentA (pair_vars_after zero w h n) = currentA w \<and>
            (snd (call (pair_shrinker zero w) h n) \<longrightarrow>
               First (fst (call (pair_shrinker zero w) h n)) = currentA w))"
proof -
  have w: "w = snd (shrink_second zero
             \<lparr>shrinkingFirst = False,
              currentA = (if k = 0 then a else fst (call s f (k - 1))),
              currentB = b, sa = after s f (Suc k), sb = t\<rparr> False)"
    unfolding assms(3) by (rule switched_state [OF assms(1,2)])
  have nf: "\<not> shrinkingFirst w" and saw: "sa w = after s f (Suc k)"
    and caw: "currentA w = (if k = 0 then a else fst (call s f (k - 1)))"
    by (simp_all add: w shrink_second_fields)
  have sw: "snd (call (pair_shrinker zero (pair_init a b s t)) f k) \<longrightarrow>
            First (fst (call (pair_shrinker zero (pair_init a b s t)) f k)) = currentA w"
    using switching_call [OF assms(1,2), of zero a b t]
    by (simp add: caw split: if_splits)
  have rest: "pair_vars_after zero (w\<lparr>sa := x\<rparr>) h n = (pair_vars_after zero w h n)\<lparr>sa := x\<rparr> \<and>
            call (pair_shrinker zero (w\<lparr>sa := x\<rparr>)) h n = call (pair_shrinker zero w) h n \<and>
            currentA (pair_vars_after zero w h n) = currentA w \<and>
            (snd (call (pair_shrinker zero w) h n) \<longrightarrow>
               First (fst (call (pair_shrinker zero w) h n)) = currentA w)" for h n x
    using second_phase_frame [OF nf] second_phase_frame_call [OF nf]
      second_phase [OF nf, of zero h n] second_phase_call(2) [OF nf, of zero h n]
    by simp
  show ?thesis
    using nf saw caw sw rest by blast
qed

text \<open>
The generators of \<open>TestPairOf_Shrinking\<close>: the state after the eleventh call.
\<close>

theorem first_left_alone_after_switch_witness:
  "\<not> shrinkingFirst (pair_vars_after \<lparr>First = 0, Second = []\<rparr>
        (pair_init 10 ''hello'' (intGen_shrinker 10) (strGen_shrinker ''hello''))
        (\<lambda>_. True) (Suc 10)) \<and>
   sa (pair_vars_after \<lparr>First = 0, Second = []\<rparr>
        (pair_init 10 ''hello'' (intGen_shrinker 10) (strGen_shrinker ''hello''))
        (\<lambda>_. True) (Suc 10)) = intGen_shrinker 0 \<and>
   currentA (pair_vars_after \<lparr>First = 0, Second = []\<rparr>
        (pair_init 10 ''hello'' (intGen_shrinker 10) (strGen_shrinker ''hello''))
        (\<lambda>_. True) (Suc 10)) = 0 \<and>
   currentA (pair_vars_after \<lparr>First = 0, Second = []\<rparr>
     (pair_vars_after \<lparr>First = 0, Second = []\<rparr>
        (pair_init 10 ''hello'' (intGen_shrinker 10) (strGen_shrinker ''hello''))
        (\<lambda>_. True) (Suc 10)) (\<lambda>_. False) 2) = 0"
proof -
  let ?w = "pair_vars_after \<lparr>First = 0, Second = []\<rparr>
        (pair_init 10 ''hello'' (intGen_shrinker 10) (strGen_shrinker ''hello''))
        (\<lambda>_. True) (Suc 10)"
  have h1: "\<forall>j<10. snd (call (intGen_shrinker 10) (\<lambda>_. True) j)"
    by (simp add: call_intGen_shrinker)
  have h2: "\<not> snd (call (intGen_shrinker 10) (\<lambda>_. True) 10)"
    by (simp add: call_intGen_shrinker)
  note T = first_left_alone_after_switch [OF h1 h2 refl,
      of "\<lparr>First = 0, Second = []\<rparr>" 10 "''hello''" "strGen_shrinker ''hello''"]
  from T have a: "\<not> shrinkingFirst ?w" by blast
  from T have "sa ?w = after (intGen_shrinker 10) (\<lambda>_. True) (Suc 10)" by blast
  then have b: "sa ?w = intGen_shrinker 0"
    by (simp only: after_intGen_shrinker) simp
  from T have "currentA ?w = (if (10::nat) = 0 then 10 else fst (call (intGen_shrinker 10) (\<lambda>_. True) (10 - 1)))"
    by blast
  then have c: "currentA ?w = 0"
    by (simp add: call_intGen_shrinker)
  from T have "currentA (pair_vars_after \<lparr>First = 0, Second = []\<rparr> ?w (\<lambda>_. False) 2) = currentA ?w"
    by blast
  with c have d: "currentA (pair_vars_after \<lparr>First = 0, Second = []\<rparr> ?w (\<lambda>_. False) 2) = 0"
    by simp
  from a b c d show ?thesis by blast
qed

section \<open>Exhaustion\<close>

text \<open>
  Claim C5.  If each component shrinker reaches \<open>more = false\<close> after finitely many
  calls whatever \<open>accept\<close> arguments it is given, so does the shrinker of the pair.
\<close>

theorem pair_exhausts:
  assumes "exhausts s" and "exhausts t"
  shows "exhausts (pair_shrinker zero (pair_init a b s t))"
  unfolding exhausts_def
proof
  fix f
  let ?v = "pair_init a b s t"
  have sf: "shrinkingFirst ?v" and sav: "sa ?v = s" and sbv: "sb ?v = t"
    by (simp_all add: pair_init_def)
  from assms(1) have ex: "\<exists>n. \<not> snd (call s f n)"
    unfolding exhausts_def by blast
  define k where "k = (LEAST n. \<not> snd (call s f n))"
  have no: "\<not> snd (call s f k)"
    unfolding k_def using ex by (rule LeastI_ex)
  have before: "\<forall>j<k. snd (call (sa ?v) f j)"
    unfolding k_def sav using not_less_Least by blast
  define u where "u = pair_vars_after zero ?v f k"
  have u: "u = ?v\<lparr>sa := after s f k,
         currentA := (if k = 0 then currentA ?v else fst (call s f (k - 1)))\<rparr>"
    unfolding u_def using first_phase [OF sf before] by (simp add: sav)
  have sfu: "shrinkingFirst u" and sau: "sa u = after s f k" and sbu: "sb u = t"
    by (simp_all add: u sf sbv)
  define u' where "u' = u\<lparr>sa := nxt (sa u) (f k), shrinkingFirst := False\<rparr>"
  have nf: "\<not> shrinkingFirst u'" and sbu': "sb u' = t"
    by (simp_all add: u'_def sbu)
  from no have "\<not> snd (out (sa u) (f k))"
    by (simp add: sau call_def)
  with sfu have "pair_next zero u (f k) = shrink_second zero u' False"
    unfolding u'_def by (rule pair_next_switch)
  also have "\<dots> = pair_next zero u' False"
    using nf by (simp add: pair_next_second)
  finally have step: "pair_next zero u (f k) = pair_next zero u' False" .
  define f' where "f' = (\<lambda>i. if i = 0 then False else f (k + i))"
  from assms(2) obtain m where m: "\<not> snd (call t f' m)"
    unfolding exhausts_def by blast
  have "call (pair_shrinker zero ?v) f (k + m) = call (pair_shrinker zero u) (\<lambda>i. f (k + i)) m"
    by (simp add: call_add after_pair_shrinker u_def)
  also have "\<dots> = call (pair_shrinker zero u') f' m"
    by (rule call_pair_same_first_step) (simp_all add: step f'_def)
  finally have "snd (call (pair_shrinker zero ?v) f (k + m)) = snd (call t f' m)"
    by (simp add: second_phase_call(1) [OF nf] sbu')
  with m show "\<exists>n. \<not> snd (call (pair_shrinker zero ?v) f n)"
    by blast
qed

text \<open>
The generators of \<open>TestPairOf_Shrinking\<close>.
\<close>

theorem pair_exhausts_witness:
  "exhausts (intGen_shrinker 10) \<and> exhausts (strGen_shrinker ''hello'') \<and>
   exhausts (pair_shrinker \<lparr>First = 0, Second = []\<rparr>
     (pair_init 10 ''hello'' (intGen_shrinker 10) (strGen_shrinker ''hello'')))"
proof -
  have h1: "exhausts (intGen_shrinker 10)"
    by (rule exhausts_intGen_shrinker)
  have h2: "exhausts (strGen_shrinker ''hello'')"
    by (rule exhausts_strGen_shrinker)
  from h1 h2 pair_exhausts [OF h1 h2] show ?thesis
    by blast
qed

lemma stays_exhausted_sb_after:
  "stays_exhausted (sb v) \<Longrightarrow> stays_exhausted (sb (pair_vars_after zero v f n))"
proof (induction n)
  case 0
  then show ?case by simp
next
  case (Suc n)
  then have "stays_exhausted (sb (pair_vars_after zero v f n))" by simp
  then show ?case
    using sb_pair_next [of zero "pair_vars_after zero v f n" "f n"]
    by (auto simp: stays_exhausted_nxt)
qed

lemma pair_next_false_again:
  assumes "stays_exhausted (sb v)" and "\<not> snd (fst (pair_next zero v x))"
  shows "\<not> snd (fst (pair_next zero (snd (pair_next zero v x)) y))"
proof (cases "shrinkingFirst v")
  case True
  show ?thesis
  proof (cases "snd (out (sa v) x)")
    case ok: True
    with True assms(2) show ?thesis
      by (simp add: pair_next_first_ok)
  next
    case no: False
    let ?u = "v\<lparr>sa := nxt (sa v) x, shrinkingFirst := False\<rparr>"
    have step: "pair_next zero v x = shrink_second zero ?u False"
      using True no by (rule pair_next_switch)
    with assms(2) have "\<not> snd (out (sb v) False)"
      by (simp add: shrink_second_fields)
    with assms(1) have "\<not> snd (out (nxt (sb v) False) y)"
      by (rule stays_exhausted_twice)
    then show ?thesis
      by (simp add: step pair_next_second shrink_second_fields)
  qed
next
  case False
  have step: "pair_next zero v x = shrink_second zero v x"
    using False by (rule pair_next_second)
  with assms(2) have "\<not> snd (out (sb v) x)"
    by (simp add: shrink_second_fields)
  with assms(1) have "\<not> snd (out (nxt (sb v) x) y)"
    by (rule stays_exhausted_twice)
  then show ?thesis
    using False by (simp add: step pair_next_second shrink_second_fields)
qed

lemma stays_exhausted_pair_vars:
  assumes "stays_exhausted (sb v)"
  shows "stays_exhausted (pair_shrinker zero v)"
  unfolding stays_exhausted_def
proof (intro allI impI)
  fix f n m
  assume no: "\<not> snd (call (pair_shrinker zero v) f n)" and "n \<le> m"
  have "\<not> snd (call (pair_shrinker zero v) f (n + d))" for d
  proof (induction d)
    case 0
    from no show ?case by simp
  next
    case (Suc d)
    have "stays_exhausted (sb (pair_vars_after zero v f (n + d)))"
      using assms by (rule stays_exhausted_sb_after)
    from pair_next_false_again [OF this, of zero "f (n + d)" "f (Suc (n + d))"] Suc
    show ?case
      by (simp add: call_pair_shrinker)
  qed
  from this [of "m - n"] \<open>n \<le> m\<close> show "\<not> snd (call (pair_shrinker zero v) f m)"
    by simp
qed

text \<open>
  Claim C6.  If the second shrinker returns \<open>more = false\<close> in every call after the
  first one in which it did, then so does the shrinker of the pair, whatever \<open>accept\<close>
  arguments it is given.  The same assumption on the first shrinker, which the claim also
  makes, is not needed: the closure stops calling \<open>sa\<close> once it returned
  \<open>more = false\<close>.
\<close>

theorem pair_stays_exhausted:
  assumes "stays_exhausted t"
  shows "stays_exhausted (pair_shrinker zero (pair_init a b s t))"
  using assms by (intro stays_exhausted_pair_vars) (simp add: pair_init_def)

text \<open>
The generators of \<open>TestPairOf_Shrinking\<close>.
\<close>

theorem pair_stays_exhausted_witness:
  "stays_exhausted (strGen_shrinker ''hello'') \<and>
   stays_exhausted (pair_shrinker \<lparr>First = 0, Second = []\<rparr>
     (pair_init 10 ''hello'' (intGen_shrinker 10) (strGen_shrinker ''hello'')))"
proof -
  have h: "stays_exhausted (strGen_shrinker ''hello'')"
    by (rule stays_exhausted_strGen_shrinker)
  from h show ?thesis
    by (intro conjI pair_stays_exhausted)
qed

section \<open>Candidates are no larger than the generated pair\<close>

lemma shrink_second_bounded:
  assumes "pair_vars_bounded sizeA sizeB a b v"
  shows "pair_vars_bounded sizeA sizeB a b (snd (shrink_second zero v x))"
    and "snd (fst (shrink_second zero v x)) \<Longrightarrow>
         sizeA (First (fst (fst (shrink_second zero v x)))) \<le> sizeA a \<and>
         sizeB (Second (fst (fst (shrink_second zero v x)))) \<le> sizeB b"
  using assms never_larger_out [of sizeB b "sb v" x] never_larger_nxt [of sizeB b "sb v" x]
  by (auto simp: pair_vars_bounded_def shrink_second_def split_beta Let_def)

lemma pair_next_bounded:
  assumes "pair_vars_bounded sizeA sizeB a b v"
  shows "pair_vars_bounded sizeA sizeB a b (snd (pair_next zero v x))"
    and "snd (fst (pair_next zero v x)) \<Longrightarrow>
         sizeA (First (fst (fst (pair_next zero v x)))) \<le> sizeA a \<and>
         sizeB (Second (fst (fst (pair_next zero v x)))) \<le> sizeB b"
proof -
  have switched: "pair_vars_bounded sizeA sizeB a b (v\<lparr>sa := nxt (sa v) x, shrinkingFirst := False\<rparr>)"
    using assms never_larger_nxt [of sizeA a "sa v" x]
    by (simp add: pair_vars_bounded_def)
  have first: "pair_vars_bounded sizeA sizeB a b
                 (v\<lparr>sa := nxt (sa v) x, currentA := fst (out (sa v) x)\<rparr>) \<and>
               sizeA (fst (out (sa v) x)) \<le> sizeA a \<and> sizeB (currentB v) \<le> sizeB b"
    if "snd (out (sa v) x)"
    using assms that never_larger_nxt [of sizeA a "sa v" x] never_larger_out [of sizeA a "sa v" x]
    by (simp add: pair_vars_bounded_def)
  show "pair_vars_bounded sizeA sizeB a b (snd (pair_next zero v x))"
    using first shrink_second_bounded(1) [OF switched] shrink_second_bounded(1) [OF assms]
    by (cases "shrinkingFirst v"; cases "snd (out (sa v) x)")
       (simp_all add: pair_next_first_ok pair_next_switch pair_next_second)
  show "sizeA (First (fst (fst (pair_next zero v x)))) \<le> sizeA a \<and>
        sizeB (Second (fst (fst (pair_next zero v x)))) \<le> sizeB b"
    if "snd (fst (pair_next zero v x))"
    using that first shrink_second_bounded(2) [OF switched] shrink_second_bounded(2) [OF assms]
    by (cases "shrinkingFirst v"; cases "snd (out (sa v) x)")
       (simp_all add: pair_next_first_ok pair_next_switch pair_next_second)
qed

lemma pair_vars_after_bounded:
  "pair_vars_bounded sizeA sizeB a b v \<Longrightarrow>
   pair_vars_bounded sizeA sizeB a b (pair_vars_after zero v f n)"
  by (induction n) (simp_all add: pair_next_bounded(1))

text \<open>
  Claim C8.  \<open>sizeA\<close> and \<open>sizeB\<close> measure the two components.  If no candidate of
  the first shrinker is larger than the generated \<open>a\<close> and no candidate of the second is
  larger than the generated \<open>b\<close>, then every candidate the pair shrinker emits is no
  larger than \<open>(a, b)\<close> in either component.
\<close>

theorem pair_candidates_never_larger:
  assumes "never_larger sizeA a s" and "never_larger sizeB b t"
    and "snd (call (pair_shrinker zero (pair_init a b s t)) f n)"
  shows "sizeA (First (fst (call (pair_shrinker zero (pair_init a b s t)) f n))) \<le> sizeA a \<and>
         sizeB (Second (fst (call (pair_shrinker zero (pair_init a b s t)) f n))) \<le> sizeB b"
proof -
  have "pair_vars_bounded sizeA sizeB a b (pair_init a b s t)"
    using assms(1,2) by (simp add: pair_vars_bounded_def pair_init_def)
  then have "pair_vars_bounded sizeA sizeB a b (pair_vars_after zero (pair_init a b s t) f n)"
    by (rule pair_vars_after_bounded)
  from pair_next_bounded(2) [OF this, of zero "f n"] assms(3) show ?thesis
    by (simp add: call_pair_shrinker)
qed

text \<open>
  The generators of \<open>TestPairOf_Shrinking\<close>, integers measured by magnitude and
  strings by length, thirteenth call of a caller that rejects everything.
\<close>

theorem pair_candidates_never_larger_witness:
  "never_larger (\<lambda>i. nat \<bar>i\<bar>) 10 (intGen_shrinker 10) \<and>
   never_larger length ''hello'' (strGen_shrinker ''hello'') \<and>
   call (pair_shrinker \<lparr>First = 0, Second = []\<rparr>
          (pair_init 10 ''hello'' (intGen_shrinker 10) (strGen_shrinker ''hello'')))
        (\<lambda>_. False) 12 = (\<lparr>First = 0, Second = ''he''\<rparr>, True) \<and>
   nat \<bar>First (fst (call (pair_shrinker \<lparr>First = 0, Second = []\<rparr>
          (pair_init 10 ''hello'' (intGen_shrinker 10) (strGen_shrinker ''hello'')))
        (\<lambda>_. False) 12))\<bar> \<le> nat \<bar>10\<bar> \<and>
   length (Second (fst (call (pair_shrinker \<lparr>First = 0, Second = []\<rparr>
          (pair_init 10 ''hello'' (intGen_shrinker 10) (strGen_shrinker ''hello'')))
        (\<lambda>_. False) 12))) \<le> length ''hello''"
proof -
  have h1: "never_larger (\<lambda>i. nat \<bar>i\<bar>) 10 (intGen_shrinker 10)"
    by (rule never_larger_intGen_shrinker)
  have h2: "never_larger length ''hello'' (strGen_shrinker ''hello'')"
    by (rule never_larger_strGen_shrinker)
  have v: "call (pair_shrinker \<lparr>First = 0, Second = []\<rparr>
          (pair_init 10 ''hello'' (intGen_shrinker 10) (strGen_shrinker ''hello'')))
        (\<lambda>_. False) 12 = (\<lparr>First = 0, Second = ''he''\<rparr>, True)"
    by (simp add: call_def eval_nat_numeral pair_next_def shrink_second_def pair_init_def)
  then have h3: "snd (call (pair_shrinker \<lparr>First = 0, Second = []\<rparr>
          (pair_init 10 ''hello'' (intGen_shrinker 10) (strGen_shrinker ''hello'')))
        (\<lambda>_. False) 12)"
    by simp
  from h1 h2 v pair_candidates_never_larger [OF h1 h2 h3] show ?thesis
    by blast
qed

section \<open>Generate\<close>

text \<open>
  Claim C4.  Let \<open>ga\<close> and \<open>gb\<close> be pure in the state of \<open>r\<close> and the size.  Two calls
  of \<open>PairOf(ga, gb).Generate\<close> with a non-nil \<open>r\<close> in the same state and with the same
  size, made at any two states \<open>g\<close>, \<open>g'\<close> of the process-wide source, return the same
  pair and the same shrinker, leave \<open>r\<close> in the same state, and the two shrinkers return
  the same in every call of every sequence of \<open>accept\<close> arguments.
\<close>

theorem PairOf_pure:
  assumes "pure_gen ga" and "pure_gen gb"
  shows "fst (PairOf lib zero ga gb g (Some r) sz) = fst (PairOf lib zero ga gb g' (Some r) sz) \<and>
         snd (snd (PairOf lib zero ga gb g (Some r) sz)) =
           snd (snd (PairOf lib zero ga gb g' (Some r) sz)) \<and>
         (\<forall>f n. call (snd (fst (PairOf lib zero ga gb g (Some r) sz))) f n =
                 call (snd (fst (PairOf lib zero ga gb g' (Some r) sz))) f n)"
proof -
  from assms(1) have a: "fst (ga g r sz) = fst (ga g' r sz)"
    and ra: "snd (snd (ga g r sz)) = snd (snd (ga g' r sz))"
    unfolding pure_gen_def by blast+
  let ?r1 = "snd (snd (ga g r sz))"
  from assms(2) have b: "fst (gb (fst (snd (ga g r sz))) ?r1 sz) = fst (gb (fst (snd (ga g' r sz))) ?r1 sz)"
    and rb: "snd (snd (gb (fst (snd (ga g r sz))) ?r1 sz)) = snd (snd (gb (fst (snd (ga g' r sz))) ?r1 sz))"
    unfolding pure_gen_def by blast+
  have res: "fst (PairOf lib zero ga gb g (Some r) sz) = fst (PairOf lib zero ga gb g' (Some r) sz)"
    using a b ra by (simp add: PairOf_def split_beta Let_def)
  have rng: "snd (snd (PairOf lib zero ga gb g (Some r) sz)) =
           snd (snd (PairOf lib zero ga gb g' (Some r) sz))"
    using ra rb by (simp add: PairOf_def split_beta Let_def)
  from res rng show ?thesis by simp
qed

text \<open>
  \<open>counting_gen\<close>, which reads \<open>r\<close>, and \<open>strGen\<close>; \<open>r\<close> in state 5, the
  process-wide source in the states 0 and 7.
\<close>

theorem PairOf_pure_witness:
  "pure_gen (counting_gen :: (nat, nat, int) Generator) \<and>
   pure_gen (strGen :: (nat, nat, string) Generator) \<and>
   fst (fst (PairOf counting_rand \<lparr>First = 0, Second = []\<rparr> counting_gen strGen 0 (Some 5)
              \<lparr>Min = 0, Max = 0\<rparr>)) = \<lparr>First = 5, Second = ''hello''\<rparr> \<and>
   fst (PairOf counting_rand \<lparr>First = 0, Second = []\<rparr> counting_gen strGen 7 (Some 5)
         \<lparr>Min = 0, Max = 0\<rparr>) =
   fst (PairOf counting_rand \<lparr>First = 0, Second = []\<rparr> counting_gen strGen 0 (Some 5)
         \<lparr>Min = 0, Max = 0\<rparr>)"
proof -
  have v: "fst (fst (PairOf counting_rand \<lparr>First = 0, Second = []\<rparr> counting_gen strGen 0 (Some 5)
              \<lparr>Min = 0, Max = 0\<rparr>)) = \<lparr>First = 5, Second = ''hello''\<rparr>"
    by (simp add: PairOf_def counting_gen_def strGen_def)
  from PairOf_pure [OF pure_gen_counting_gen pure_gen_strGen,
      of counting_rand "\<lparr>First = 0, Second = []\<rparr>" 7 5 "\<lparr>Min = 0, Max = 0\<rparr>" 0]
  have "fst (PairOf counting_rand \<lparr>First = 0, Second = []\<rparr> counting_gen strGen 7 (Some 5)
         \<lparr>Min = 0, Max = 0\<rparr>) =
   fst (PairOf counting_rand \<lparr>First = 0, Second = []\<rparr> counting_gen strGen 0 (Some 5)
         \<lparr>Min = 0, Max = 0\<rparr>)"
    by blast
  with v pure_gen_counting_gen pure_gen_strGen show ?thesis
    by blast
qed

text \<open>
  Claim C10.  With a nil \<open>r\<close> the call does not fail: it draws a seed from the
  process-wide source, and returns the pair and the shrinker that the call with a fresh
  \<open>rand.Rand\<close> of that seed returns; the caller's \<open>r\<close> stays nil.  Two such calls need
  not return equal pairs: on \<open>counting_rand\<close> the first call returns \<open>(0, 1)\<close> and
  leaves the process-wide source in state 1, from which the second returns \<open>(1, 2)\<close>.
\<close>

theorem PairOf_nil_rng:
  "PairOf lib zero ga gb g None sz =
     (let (seed, g') = Int63 lib g;
          (res, g'', r') = PairOf lib zero ga gb g' (Some (New_NewSource lib seed)) sz
      in (res, g'', None)) \<and>
   fst (fst (PairOf counting_rand \<lparr>First = 0, Second = 0\<rparr> counting_gen counting_gen
              0 None \<lparr>Min = 0, Max = 0\<rparr>)) = \<lparr>First = 0, Second = 1\<rparr> \<and>
   fst (snd (PairOf counting_rand \<lparr>First = 0, Second = 0\<rparr> counting_gen counting_gen
              0 None \<lparr>Min = 0, Max = 0\<rparr>)) = 1 \<and>
   fst (fst (PairOf counting_rand \<lparr>First = 0, Second = 0\<rparr> counting_gen counting_gen
              1 None \<lparr>Min = 0, Max = 0\<rparr>)) = \<lparr>First = 1, Second = 2\<rparr>"
  by (simp add: PairOf_def split_beta Let_def counting_rand_def counting_gen_def)

section \<open>TupleOf\<close>

text \<open>
  Claim C7.  \<open>TupleOf(ga, gb)\<close> and \<open>PairOf(ga, gb)\<close> are the same generator: for every
  state of the random sources and every size \<open>Generate\<close> returns the same pair, the same
  shrinker and leaves the sources alike, and the two shrinkers answer every sequence of
  calls alike.
\<close>

theorem TupleOf_is_PairOf:
  "TupleOf lib zero ga gb g r sz = PairOf lib zero ga gb g r sz \<and>
   (\<forall>f n. call (snd (fst (TupleOf lib zero ga gb g r sz))) f n =
           call (snd (fst (PairOf lib zero ga gb g r sz))) f n)"
  by (simp add: TupleOf_def)

end
